theory Spec2Isabelle
  imports Complex_Main "HOL-Library.Multiset" "HOL-Library.AList" "HOL-Library.Product_Lexorder"
begin

section \<open>Python values of align.py\<close>

text \<open>
  Python integers are \<open>int\<close>. Python floats (seconds, scaled bounds) are modelled as
  rationals: rounding is not modelled, and a float that is NaN is \<open>None\<close> of an option.
  A \<open>dict\<close> is an association list in insertion order, as \<open>dict\<close> iterates; a key is
  looked up at its first entry. Exceptions are the left summand of a sum type.
\<close>

datatype error = NoCorrelation | IndexError | KeyError | ValueError | ZeroDivisionError

type_synonym signature = "(int \<times> int list) list"

type_synonym histogram = "(int \<times> nat) list"

text \<open>\<open>d[key]\<close> for a key taken from \<open>d.keys()\<close>; a \<open>defaultdict(list)\<close> gives the empty
  list for any other key.\<close>

definition dict_get :: "('k \<times> 'v list) list \<Rightarrow> 'k \<Rightarrow> 'v list" where
  "dict_get d key = (case map_of d key of Some l \<Rightarrow> l | None \<Rightarrow> [])"

section \<open>The delay finder: \<open>_find_delay\<close>\<close>

text \<open>\<open>math.isnan(min_delay) or delta_t >= min_delay\<close>, and the same for the maximum.\<close>

definition mincond_ok :: "rat option \<Rightarrow> int \<Rightarrow> bool" where
  "mincond_ok min_delay delta_t =
     (case min_delay of None \<Rightarrow> True | Some m \<Rightarrow> m \<le> of_int delta_t)"

definition maxcond_ok :: "rat option \<Rightarrow> int \<Rightarrow> bool" where
  "maxcond_ok max_delay delta_t =
     (case max_delay of None \<Rightarrow> True | Some m \<Rightarrow> of_int delta_t \<le> m)"

definition inc_of :: "rat option \<Rightarrow> rat option \<Rightarrow> int \<Rightarrow> nat" where
  "inc_of min_delay max_delay delta_t =
     (if mincond_ok min_delay delta_t \<and> maxcond_ok max_delay delta_t then 1 else 0)"

text \<open>\<open>t_diffs[delta_t] += inc\<close> on a \<open>defaultdict(int)\<close>: an existing entry is changed in
  place, a new delta is entered at the end with \<open>0 + inc\<close>.\<close>

fun bump :: "int \<Rightarrow> nat \<Rightarrow> histogram \<Rightarrow> histogram" where
  "bump d i [] = [(d, i)]"
| "bump d i ((k, c) # h) = (if k = d then (k, c + i) # h else (k, c) # bump d i h)"

text \<open>The three nested loops over the shared keys, the sample's times and the original's
  times. \<open>keys\<close> is the list of shared keys in the order the set is iterated.\<close>

definition t_diffs :: "int list \<Rightarrow> signature \<Rightarrow> signature \<Rightarrow> rat option \<Rightarrow> rat option \<Rightarrow> histogram" where
  "t_diffs keys freqs_dict_orig freqs_dict_sample min_delay max_delay =
     fold (\<lambda>key.
       fold (\<lambda>x_i.
         fold (\<lambda>x_j. bump (x_i - x_j) (inc_of min_delay max_delay (x_i - x_j)))
           (dict_get freqs_dict_orig key))
         (dict_get freqs_dict_sample key))
       keys []"

text \<open>
  \<open>sorted(list(t_diffs.items()), key=lambda x: x[1])\<close> is a stable sort by the count;
  \<open>sort_key\<close> is one, and \<open>t_diffs_sorted[-1]\<close> raises IndexError on an empty list.
  The order in which Python iterates the set \<open>keys\<close> is not fixed by the language:
  \<open>iter\<close> gives it.
\<close>

definition shared_keys :: "signature \<Rightarrow> signature \<Rightarrow> int set" where
  "shared_keys freqs_dict_orig freqs_dict_sample =
     set (map fst freqs_dict_sample) \<inter> set (map fst freqs_dict_orig)"

definition find_delay ::
  "(int set \<Rightarrow> int list) \<Rightarrow> signature \<Rightarrow> signature \<Rightarrow> rat option \<Rightarrow> rat option \<Rightarrow> error + int" where
  "find_delay iter freqs_dict_orig freqs_dict_sample min_delay max_delay =
     (let keys = shared_keys freqs_dict_orig freqs_dict_sample in
      if keys = {} then Inl NoCorrelation
      else
        let t_diffs_sorted =
              sort_key snd (t_diffs (iter keys) freqs_dict_orig freqs_dict_sample min_delay max_delay)
        in if t_diffs_sorted = [] then Inl IndexError
           else Inr (fst (last t_diffs_sorted)))"

text \<open>An iteration order of sets visits every element once.\<close>

definition iterates :: "(int set \<Rightarrow> int list) \<Rightarrow> bool" where
  "iterates iter = (\<forall>S. finite S \<longrightarrow> set (iter S) = S \<and> distinct (iter S))"

text \<open>The variant of the spec that skips a delta outside the bounds instead of entering
  it with a zero increment.\<close>

definition t_diffs_skip :: "int list \<Rightarrow> signature \<Rightarrow> signature \<Rightarrow> rat option \<Rightarrow> rat option \<Rightarrow> histogram" where
  "t_diffs_skip keys freqs_dict_orig freqs_dict_sample min_delay max_delay =
     fold (\<lambda>key.
       fold (\<lambda>x_i.
         fold (\<lambda>x_j. if mincond_ok min_delay (x_i - x_j) \<and> maxcond_ok max_delay (x_i - x_j)
                      then bump (x_i - x_j) 1 else id)
           (dict_get freqs_dict_orig key))
         (dict_get freqs_dict_sample key))
       keys []"

definition find_delay_skip ::
  "(int set \<Rightarrow> int list) \<Rightarrow> signature \<Rightarrow> signature \<Rightarrow> rat option \<Rightarrow> rat option \<Rightarrow> error + int" where
  "find_delay_skip iter freqs_dict_orig freqs_dict_sample min_delay max_delay =
     (let keys = shared_keys freqs_dict_orig freqs_dict_sample in
      if keys = {} then Inl NoCorrelation
      else
        let t_diffs_sorted =
              sort_key snd (t_diffs_skip (iter keys) freqs_dict_orig freqs_dict_sample min_delay max_delay)
        in if t_diffs_sorted = [] then Inl IndexError
           else Inr (fst (last t_diffs_sorted)))"

text \<open>The deltas in the order the loops visit them.\<close>

definition deltas :: "int list \<Rightarrow> signature \<Rightarrow> signature \<Rightarrow> int list" where
  "deltas keys freqs_dict_orig freqs_dict_sample =
     concat (map (\<lambda>key.
       concat (map (\<lambda>x_i. map (\<lambda>x_j. x_i - x_j) (dict_get freqs_dict_orig key))
                 (dict_get freqs_dict_sample key)))
       keys)"

definition in_bounds :: "rat option \<Rightarrow> rat option \<Rightarrow> int \<Rightarrow> bool" where
  "in_bounds min_delay max_delay d = (mincond_ok min_delay d \<and> maxcond_ok max_delay d)"

text \<open>The histogram a call builds, and what it means for \<open>ys\<close> to be the histogram \<open>h\<close>
  sorted by count, ascending and stable.\<close>

definition histogram_of ::
  "(int set \<Rightarrow> int list) \<Rightarrow> signature \<Rightarrow> signature \<Rightarrow> rat option \<Rightarrow> rat option \<Rightarrow> histogram" where
  "histogram_of iter freqs_dict_orig freqs_dict_sample min_delay max_delay =
     t_diffs (iter (shared_keys freqs_dict_orig freqs_dict_sample))
       freqs_dict_orig freqs_dict_sample min_delay max_delay"

definition stable_sorted_by_count :: "histogram \<Rightarrow> histogram \<Rightarrow> bool" where
  "stable_sorted_by_count ys h =
     (mset ys = mset h \<and> sorted (map snd ys) \<and>
      (\<forall>e \<in> set h. filter (\<lambda>x. snd e = snd x) ys = filter (\<lambda>x. snd e = snd x) h))"

text \<open>A delta inside the bounds has at least one vote, a delta outside has none.\<close>

definition votes_ok :: "rat option \<Rightarrow> rat option \<Rightarrow> histogram \<Rightarrow> bool" where
  "votes_ok mn mx h = (\<forall>(d, c) \<in> set h. if in_bounds mn mx d then 1 \<le> c else c = 0)"

text \<open>One iteration order, for the examples: ascending.\<close>

definition ascending :: "int set \<Rightarrow> int list" where
  "ascending S = sorted_list_of_set S"

section \<open>Loops that can raise\<close>

text \<open>A \<open>for\<close> loop whose body can raise: the first exception ends the loop.\<close>

fun fold_err :: "('a \<Rightarrow> 's \<Rightarrow> error + 's) \<Rightarrow> 'a list \<Rightarrow> 's \<Rightarrow> error + 's" where
  "fold_err f [] s = Inr s"
| "fold_err f (x # xs) s = (case f x s of Inl e \<Rightarrow> Inl e | Inr s' \<Rightarrow> fold_err f xs s')"

fun map_err :: "('a \<Rightarrow> error + 'b) \<Rightarrow> 'a list \<Rightarrow> error + 'b list" where
  "map_err f [] = Inr []"
| "map_err f (x # xs) =
     (case f x of Inl e \<Rightarrow> Inl e
      | Inr y \<Rightarrow> (case map_err f xs of Inl e \<Rightarrow> Inl e | Inr ys \<Rightarrow> Inr (y # ys)))"

text \<open>\<open>d[k]\<close> on a plain \<open>dict\<close> raises KeyError for a missing key.\<close>

definition lookup :: "('k \<times> 'v) list \<Rightarrow> 'k \<Rightarrow> error + 'v" where
  "lookup d k = (case map_of d k of None \<Rightarrow> Inl KeyError | Some v \<Rightarrow> Inr v)"

text \<open>\<open>a // b\<close> on integers and \<open>a / b\<close> on floats raise ZeroDivisionError for a zero
  divisor; \<open>div\<close> on \<open>int\<close> rounds towards minus infinity as \<open>//\<close> does.\<close>

definition py_floordiv :: "int \<Rightarrow> int \<Rightarrow> error + int" where
  "py_floordiv a b = (if b = 0 then Inl ZeroDivisionError else Inr (a div b))"

definition py_truediv :: "rat \<Rightarrow> rat \<Rightarrow> error + rat" where
  "py_truediv a b = (if b = 0 then Inl ZeroDivisionError else Inr (a / b))"

section \<open>The signature extractor: \<open>_mk_freq_trans_summary\<close>\<close>

text \<open>\<open>range(a, b, s)\<close> as the list of its elements; a zero step raises ValueError.\<close>

definition py_range :: "int \<Rightarrow> int \<Rightarrow> int \<Rightarrow> error + int list" where
  "py_range a b s =
     (if s = 0 then Inl ValueError
      else if 0 < s then Inr (map (\<lambda>k. a + int k * s) [0..<nat ((b - a + s - 1) div s)])
      else Inr (map (\<lambda>k. a + int k * s) [0..<nat ((a - b - s - 1) div (- s))]))"

text \<open>\<open>xs[start:stop]\<close>: a negative index counts from the end, and both are clamped to
  the list.\<close>

definition py_slice :: "'a list \<Rightarrow> int \<Rightarrow> int \<Rightarrow> 'a list" where
  "py_slice xs start stop =
     (let n = int (length xs);
          norm = (\<lambda>i. if i < 0 then max 0 (i + n) else min i n);
          lo = norm start;
          hi = norm stop
      in take (nat (hi - lo)) (drop (nat lo) xs))"

definition enumerate_list :: "'a list \<Rightarrow> (int \<times> 'a) list" where
  "enumerate_list xs = zip (map int [0..<length xs]) xs"

text \<open>Line 51: the samples of the window at position \<open>j\<close>; line 52: the window takes part
  when it has \<open>fft_bin_size\<close> samples.\<close>

definition sample_data_at :: "'s list \<Rightarrow> int \<Rightarrow> int \<Rightarrow> 's list" where
  "sample_data_at data fft_bin_size j = py_slice data (max 0 j) (max 0 j + fft_bin_size)"

definition full_window :: "'s list \<Rightarrow> int \<Rightarrow> int \<Rightarrow> bool" where
  "full_window data fft_bin_size j = (int (length (sample_data_at data fft_bin_size j)) = fft_bin_size)"

type_synonym 'a boxes = "((int \<times> int) \<times> ('a \<times> int \<times> int) list) list"

text \<open>Lines 60-61: \<open>if len(l) > maxes_per_box: l.remove(min(l))\<close>. Tuples compare
  lexicographically; \<open>remove\<close> deletes the first equal element.\<close>

definition evict :: "int \<Rightarrow> ('a::linorder) list \<Rightarrow> 'a list" where
  "evict maxes_per_box l =
     (if int (length l) > maxes_per_box then remove1 (Min (set l)) l else l)"

text \<open>Lines 59-61 on the \<open>defaultdict(list)\<close> of boxes.\<close>

fun box_append ::
  "int \<Rightarrow> int \<times> int \<Rightarrow> ('a::linorder) \<times> int \<times> int \<Rightarrow> 'a boxes \<Rightarrow> 'a boxes" where
  "box_append maxes_per_box k t [] = [(k, evict maxes_per_box [t])]"
| "box_append maxes_per_box k t ((k', l) # boxes) =
     (if k' = k then (k', evict maxes_per_box (l @ [t])) # boxes
      else (k', l) # box_append maxes_per_box k t boxes)"

text \<open>The body of the loop over \<open>y\<close> (lines 56-61).\<close>

definition freq_step ::
  "int \<Rightarrow> int \<Rightarrow> ('a::linorder) list \<Rightarrow> int \<Rightarrow> int \<Rightarrow> int \<Rightarrow> 'a boxes \<Rightarrow> error + 'a boxes" where
  "freq_step box_height maxes_per_box intensities x box_x y boxes =
     (case py_floordiv y box_height of
        Inl e \<Rightarrow> Inl e
      | Inr box_y \<Rightarrow>
          Inr (box_append maxes_per_box (box_x, box_y) (intensities ! nat y, x, y) boxes))"

text \<open>The body of the loop over the windows (lines 51-61). \<open>spectrum\<close> stands for
  \<open>np.abs(np.fft.fft(sample_data))\<close>, which raises ValueError on an empty window.\<close>

definition window_step ::
  "('s list \<Rightarrow> ('a::linorder) list) \<Rightarrow> 's list \<Rightarrow> int \<Rightarrow> int \<Rightarrow> int \<Rightarrow> int \<Rightarrow>
     int \<times> int \<Rightarrow> 'a boxes \<Rightarrow> error + 'a boxes" where
  "window_step spectrum data fft_bin_size box_height box_width maxes_per_box xj boxes =
     (case xj of (x, j) \<Rightarrow>
        let sample_data = sample_data_at data fft_bin_size j in
        if full_window data fft_bin_size j then
          (if sample_data = [] then Inl ValueError
           else
             let intensities = spectrum sample_data in
             case py_floordiv x box_width of
               Inl e \<Rightarrow> Inl e
             | Inr box_x \<Rightarrow>
                 fold_err (freq_step box_height maxes_per_box intensities x box_x)
                   (map int [0..<length intensities div 2]) boxes)
        else Inr boxes)"

text \<open>\<open>freqs_dict[y].append(x)\<close> on a \<open>defaultdict(list)\<close>.\<close>

fun dict_append :: "'k \<Rightarrow> 'v \<Rightarrow> ('k \<times> 'v list) list \<Rightarrow> ('k \<times> 'v list) list" where
  "dict_append k v [] = [(k, [v])]"
| "dict_append k v ((k', l) # d) =
     (if k' = k then (k', l @ [v]) # d else (k', l) # dict_append k v d)"

text \<open>Lines 63-65.\<close>

definition flatten :: "'a boxes \<Rightarrow> signature" where
  "flatten boxes =
     fold (\<lambda>k. fold (\<lambda>(intensity, x, y). dict_append y x) (dict_get boxes k))
       (map fst boxes) []"

definition mk_boxes ::
  "('s list \<Rightarrow> ('a::linorder) list) \<Rightarrow> 's list \<Rightarrow> int \<Rightarrow> int \<Rightarrow> int \<Rightarrow> int \<Rightarrow> int \<Rightarrow>
     error + 'a boxes" where
  "mk_boxes spectrum data fft_bin_size overlap box_height box_width maxes_per_box =
     (case py_range (- overlap) (int (length data)) (fft_bin_size - overlap) of
        Inl e \<Rightarrow> Inl e
      | Inr js \<Rightarrow>
          fold_err (window_step spectrum data fft_bin_size box_height box_width maxes_per_box)
            (enumerate_list js) [])"

definition mk_freq_trans_summary ::
  "('s list \<Rightarrow> ('a::linorder) list) \<Rightarrow> 's list \<Rightarrow> int \<Rightarrow> int \<Rightarrow> int \<Rightarrow> int \<Rightarrow> int \<Rightarrow>
     error + signature" where
  "mk_freq_trans_summary spectrum data fft_bin_size overlap box_height box_width maxes_per_box =
     (case mk_boxes spectrum data fft_bin_size overlap box_height box_width maxes_per_box of
        Inl e \<Rightarrow> Inl e
      | Inr boxes \<Rightarrow> Inr (flatten boxes))"






section \<open>The multi-file resolver: \<open>SyncDetector._align\<close>\<close>

record kdm =
  kdm_base :: "string option"
  kdm_min :: "rat option"
  kdm_max :: "rat option"

type_synonym delays = "((nat \<times> nat) \<times> rat) list"

text \<open>\<open>files.index(p)\<close>: the first position of \<open>p\<close>, or ValueError (here \<open>None\<close>).\<close>

fun index_of :: "'a list \<Rightarrow> 'a \<Rightarrow> nat option" where
  "index_of [] a = None"
| "index_of (x # xs) a = (if x = a then Some 0 else map_option Suc (index_of xs a))"

text \<open>\<open>-delay / samps_per_sec\<close>.\<close>

definition to_seconds :: "rat \<Rightarrow> int \<Rightarrow> error + rat" where
  "to_seconds samps_per_sec delay = py_truediv (- of_int delay) samps_per_sec"

text \<open>The body of the loop over \<open>known_delay_map\<close> (lines 198-208). \<open>each idx\<close> is the
  signature \<open>ftds[idx]\<close> of file \<open>idx\<close>; \<open>abspath\<close> is \<open>os.path.abspath\<close>. A missing
  \<open>"base"\<close> raises KeyError, which the \<open>try\<close> does not catch.\<close>

definition known_step ::
  "(int set \<Rightarrow> int list) \<Rightarrow> (string \<Rightarrow> string) \<Rightarrow> (nat \<Rightarrow> signature) \<Rightarrow> rat \<Rightarrow> string list \<Rightarrow>
     string \<times> kdm \<Rightarrow> delays \<Rightarrow> error + delays" where
  "known_step iter abspath each samps_per_sec files entry result1 =
     (case entry of (kdm_key, k) \<Rightarrow>
        case index_of files (abspath kdm_key) of
          None \<Rightarrow> Inr result1
        | Some it \<Rightarrow>
            (case kdm_base k of
               None \<Rightarrow> Inl KeyError
             | Some b \<Rightarrow>
                 (case index_of files (abspath b) of
                    None \<Rightarrow> Inr result1
                  | Some ib \<Rightarrow>
                      (case find_delay iter (each ib) (each it)
                              (map_option (\<lambda>m. m * samps_per_sec) (kdm_min k))
                              (map_option (\<lambda>m. m * samps_per_sec) (kdm_max k)) of
                         Inl e \<Rightarrow> Inl e
                       | Inr delay \<Rightarrow>
                           (case to_seconds samps_per_sec delay of
                              Inl e \<Rightarrow> Inl e
                            | Inr v \<Rightarrow> Inr (AList.update (ib, it) v result1))))))"

text \<open>Lines 196-208: \<open>_result1\<close>.\<close>

definition known_delays ::
  "(int set \<Rightarrow> int list) \<Rightarrow> (string \<Rightarrow> string) \<Rightarrow> (nat \<Rightarrow> signature) \<Rightarrow> rat \<Rightarrow> string list \<Rightarrow>
     (string \<times> kdm) list \<Rightarrow> error + delays" where
  "known_delays iter abspath each samps_per_sec files known_delay_map =
     fold_err (known_step iter abspath each samps_per_sec files) known_delay_map []"

text \<open>The body of the loop of lines 211-218.\<close>

definition base_step ::
  "(int set \<Rightarrow> int list) \<Rightarrow> (nat \<Rightarrow> signature) \<Rightarrow> rat \<Rightarrow> delays \<Rightarrow> nat \<Rightarrow> delays \<Rightarrow> error + delays" where
  "base_step iter each samps_per_sec result1 i result2 =
     (case map_of result1 (0, i + 1) of
        Some v \<Rightarrow> Inr (AList.update (0, i + 1) v result2)
      | None \<Rightarrow>
          (case map_of result1 (i + 1, 0) of
             Some v \<Rightarrow> Inr (AList.update (0, i + 1) (- v) result2)
           | None \<Rightarrow>
               (case find_delay iter (each 0) (each (i + 1)) None None of
                  Inl e \<Rightarrow> Inl e
                | Inr delay \<Rightarrow>
                    (case to_seconds samps_per_sec delay of
                       Inl e \<Rightarrow> Inl e
                     | Inr v \<Rightarrow> Inr (AList.update (0, i + 1) v result2)))))"

text \<open>Lines 210-218: \<open>_result2\<close> after the loop over the files.\<close>

definition base_relative ::
  "(int set \<Rightarrow> int list) \<Rightarrow> (nat \<Rightarrow> signature) \<Rightarrow> rat \<Rightarrow> nat \<Rightarrow> delays \<Rightarrow> error + delays" where
  "base_relative iter each samps_per_sec n result1 =
     fold_err (base_step iter each samps_per_sec result1) [0..<n - 1] [((0, 0), 0)]"

text \<open>The value the loop of lines 211-218 stores under \<open>(0, j)\<close>.\<close>

definition base_value ::
  "(int set \<Rightarrow> int list) \<Rightarrow> (nat \<Rightarrow> signature) \<Rightarrow> rat \<Rightarrow> delays \<Rightarrow> nat \<Rightarrow> error + rat" where
  "base_value iter each samps_per_sec result1 j =
     (case map_of result1 (0, j) of
        Some v \<Rightarrow> Inr v
      | None \<Rightarrow>
          (case map_of result1 (j, 0) of
             Some v \<Rightarrow> Inr (- v)
           | None \<Rightarrow>
               (case find_delay iter (each 0) (each j) None None of
                  Inl e \<Rightarrow> Inl e
                | Inr delay \<Rightarrow> to_seconds samps_per_sec delay)))"

text \<open>The body of the inner loop of lines 227-231.\<close>

definition chain_step :: "delays \<Rightarrow> nat \<times> nat \<Rightarrow> nat \<Rightarrow> delays \<Rightarrow> error + delays" where
  "chain_step result1 edge i result2 =
     (case edge of (ib, it) \<Rightarrow>
        if ib > 0 \<and> it = i + 1 \<and> map_of result1 (0, i + 1) = None
             \<and> map_of result1 (i + 1, 0) = None then
          (case lookup result2 (0, ib) of
             Inl e \<Rightarrow> Inl e
           | Inr a \<Rightarrow>
               (case lookup result1 (ib, it) of
                  Inl e \<Rightarrow> Inl e
                | Inr b \<Rightarrow> Inr (AList.update (0, it) (a - b) result2)))
        else if it > 0 \<and> ib = i + 1 \<and> map_of result1 (0, i + 1) = None
             \<and> map_of result1 (i + 1, 0) = None then
          (case lookup result2 (0, it) of
             Inl e \<Rightarrow> Inl e
           | Inr a \<Rightarrow>
               (case lookup result1 (ib, it) of
                  Inl e \<Rightarrow> Inl e
                | Inr b \<Rightarrow> Inr (AList.update (0, ib) (a + b) result2)))
        else Inr result2)"

definition chain ::  "nat \<Rightarrow> delays \<Rightarrow> delays \<Rightarrow> error + delays" where
  "chain n result1 result2 =
     fold_err (\<lambda>edge. fold_err (chain_step result1 edge) [0..<n - 1])
       (sort (map fst result1)) result2"

text \<open>Lines 194-231: the delays of all files relative to file 0, as \<open>_result2\<close>.\<close>

definition resolve ::
  "(int set \<Rightarrow> int list) \<Rightarrow> (string \<Rightarrow> string) \<Rightarrow> (nat \<Rightarrow> signature) \<Rightarrow> int \<Rightarrow> int \<Rightarrow>
     string list \<Rightarrow> (string \<times> kdm) list \<Rightarrow> error + delays" where
  "resolve iter abspath each sample_rate fft_bin_size files known_delay_map =
     (case py_truediv (of_int sample_rate) (of_int fft_bin_size) of
        Inl e \<Rightarrow> Inl e
      | Inr samps_per_sec \<Rightarrow>
          (case known_delays iter abspath each samps_per_sec files known_delay_map of
             Inl e \<Rightarrow> Inl e
           | Inr result1 \<Rightarrow>
               (case base_relative iter each samps_per_sec (length files) result1 of
                  Inl e \<Rightarrow> Inl e
                | Inr result2 \<Rightarrow> chain (length files) result1 result2)))"

text \<open>Line 234: \<open>[_result2[k] for k in sorted(_result2.keys())]\<close>.\<close>

definition build_result :: "delays \<Rightarrow> error + rat list" where
  "build_result result2 = map_err (lookup result2) (sort (map fst result2))"

text \<open>Lines 235-236; \<open>min\<close> and \<open>max\<close> of an empty array raise ValueError.\<close>

definition pad_trim :: "rat list \<Rightarrow> error + rat list \<times> rat list" where
  "pad_trim result =
     (if result = [] then Inl ValueError
      else
        let pad_pre = map (\<lambda>r. r - Min (set result)) result;
            trim_pre = map (\<lambda>p. - (p - Max (set pad_pre))) pad_pre
        in Inr (pad_pre, trim_pre))"

definition resolved_delays ::
  "(int set \<Rightarrow> int list) \<Rightarrow> (string \<Rightarrow> string) \<Rightarrow> (nat \<Rightarrow> signature) \<Rightarrow> int \<Rightarrow> int \<Rightarrow>
     string list \<Rightarrow> (string \<times> kdm) list \<Rightarrow> error + rat list" where
  "resolved_delays iter abspath each sample_rate fft_bin_size files known_delay_map =
     (case resolve iter abspath each sample_rate fft_bin_size files known_delay_map of
        Inl e \<Rightarrow> Inl e
      | Inr result2 \<Rightarrow> build_result result2)"

definition align ::
  "(int set \<Rightarrow> int list) \<Rightarrow> (string \<Rightarrow> string) \<Rightarrow> (nat \<Rightarrow> signature) \<Rightarrow> int \<Rightarrow> int \<Rightarrow>
     string list \<Rightarrow> (string \<times> kdm) list \<Rightarrow> error + rat list \<times> rat list" where
  "align iter abspath each sample_rate fft_bin_size files known_delay_map =
     (case resolved_delays iter abspath each sample_rate fft_bin_size files known_delay_map of
        Inl e \<Rightarrow> Inl e
      | Inr result \<Rightarrow> pad_trim result)"

text \<open>Four signatures for the examples: files 0, 1 and 2 hold frequency 0 at the times 0, 1
  and 5; every other file holds frequency 1 only.\<close>

definition example_each :: "nat \<Rightarrow> signature" where
  "example_each idx =
     (if idx = 0 then [(0, [0])] else if idx = 1 then [(0, [1])]
      else if idx = 2 then [(0, [5])] else [(1, [2])])"

section \<open>The cache key of \<open>_each\<close>\<close>

text \<open>What \<open>os.stat\<close> knows of a file: \<open>os.path.getatime\<close> reads the time of the last
  access, \<open>os.path.getmtime\<close> that of the last modification.\<close>

record file_stat =
  st_atime :: rat
  st_mtime :: rat

text \<open>The keyword arguments of \<open>_cache.make_cache_key\<close> (lines 159-174).\<close>

record for_cache =
  fc_sample_rate :: int
  fc_video_file :: string
  fc_duration :: rat
  fc_afilter :: string
  fc_fft_bin_size :: int
  fc_overlap :: int
  fc_box_height :: int
  fc_box_width :: int
  fc_samples_per_box :: int
  fc_atime :: rat

text \<open>Lines 145-156.\<close>

definition maxmisal :: "rat \<Rightarrow> int \<Rightarrow> int \<Rightarrow> int \<Rightarrow> error + rat" where
  "maxmisal max_misalignment fft_bin_size overlap sample_rate =
     (if max_misalignment = 0 then Inr 0
      else
        case py_truediv (of_int (fft_bin_size - overlap)) (of_int sample_rate) of
          Inl e \<Rightarrow> Inl e
        | Inr q \<Rightarrow> Inr (max_misalignment + 512 * q))"

definition for_cache_of ::
  "(string \<Rightarrow> file_stat) \<Rightarrow> int \<Rightarrow> string \<Rightarrow> int \<Rightarrow> int \<Rightarrow> int \<Rightarrow> int \<Rightarrow> int \<Rightarrow> rat \<Rightarrow> string \<Rightarrow>
     error + for_cache" where
  "for_cache_of stat sample_rate video_file fft_bin_size overlap box_height box_width
       samples_per_box max_misalignment afilter =
     (case maxmisal max_misalignment fft_bin_size overlap sample_rate of
        Inl e \<Rightarrow> Inl e
      | Inr duration \<Rightarrow>
          Inr \<lparr> fc_sample_rate = sample_rate, fc_video_file = video_file,
                fc_duration = duration, fc_afilter = afilter,
                fc_fft_bin_size = fft_bin_size, fc_overlap = overlap,
                fc_box_height = box_height, fc_box_width = box_width,
                fc_samples_per_box = samples_per_box,
                fc_atime = st_atime (stat video_file) \<rparr>)"

text \<open>Lines 164-175: \<open>ck\<close>, which stays \<open>None\<close> under \<open>dont_cache\<close>. \<open>make_cache_key\<close> is
  the function of the \<open>_cache\<close> module.\<close>

definition cache_key ::
  "(for_cache \<Rightarrow> 'key) \<Rightarrow> bool \<Rightarrow> (string \<Rightarrow> file_stat) \<Rightarrow> int \<Rightarrow> string \<Rightarrow> int \<Rightarrow> int \<Rightarrow> int \<Rightarrow>
     int \<Rightarrow> int \<Rightarrow> rat \<Rightarrow> string \<Rightarrow> error + 'key option" where
  "cache_key make_cache_key dont_cache stat sample_rate video_file fft_bin_size overlap
       box_height box_width samples_per_box max_misalignment afilter =
     (case for_cache_of stat sample_rate video_file fft_bin_size overlap box_height box_width
             samples_per_box max_misalignment afilter of
        Inl e \<Rightarrow> Inl e
      | Inr fc \<Rightarrow> if \<not> dont_cache then Inr (Some (make_cache_key fc)) else Inr None)"

section \<open>Histograms\<close>

lemma fold_over_concat: "fold f (concat xss) = fold (fold f) xss"
  by (induction xss) simp_all

lemma t_diffs_deltas:
  "t_diffs ks orig sample mn mx = fold (\<lambda>d. bump d (inc_of mn mx d)) (deltas ks orig sample) []"
  by (simp add: t_diffs_def deltas_def fold_over_concat fold_map comp_def)

lemma t_diffs_skip_deltas:
  "t_diffs_skip ks orig sample mn mx =
     fold (\<lambda>d. if in_bounds mn mx d then bump d 1 else id) (deltas ks orig sample) []"
  by (simp add: t_diffs_skip_def deltas_def fold_over_concat fold_map comp_def in_bounds_def)


lemma bump_keys:
  "map fst (bump d i h) = (if d \<in> set (map fst h) then map fst h else map fst h @ [d])"
  by (induction d i h rule: bump.induct) auto

lemma bump_nonempty: "bump d i h \<noteq> []"
  by (induction d i h rule: bump.induct) auto

lemma tally_keys:
  "set (map fst (fold (\<lambda>d. bump d (f d)) ds h)) = set (map fst h) \<union> set ds"
proof (induction ds arbitrary: h)
  case Nil
  show ?case by simp
next
  case (Cons d ds)
  have "set (map fst (bump d (f d) h)) = insert d (set (map fst h))"
    by (simp only: bump_keys) auto
  with Cons[of "bump d (f d) h"] show ?case by auto
qed

lemma tally_distinct:
  "distinct (map fst h) \<Longrightarrow> distinct (map fst (fold (\<lambda>d. bump d (f d)) ds h))"
  by (induction ds arbitrary: h) (auto simp: bump_keys)


lemma bump_votes_ok:
  "votes_ok mn mx h \<Longrightarrow> votes_ok mn mx (bump d (inc_of mn mx d) h)"
  by (induction d "inc_of mn mx d" h rule: bump.induct)
    (auto simp: votes_ok_def inc_of_def in_bounds_def)

lemma tally_votes_ok:
  "votes_ok mn mx h \<Longrightarrow> votes_ok mn mx (fold (\<lambda>d. bump d (inc_of mn mx d)) ds h)"
  by (induction ds arbitrary: h) (auto simp: bump_votes_ok)

lemma filter_bump_in:
  "P d \<Longrightarrow> filter (\<lambda>e. P (fst e)) (bump d i h) = bump d i (filter (\<lambda>e. P (fst e)) h)"
  by (induction d i h rule: bump.induct) auto

lemma filter_bump_out:
  "\<not> P d \<Longrightarrow> filter (\<lambda>e. P (fst e)) (bump d i h) = filter (\<lambda>e. P (fst e)) h"
  by (induction d i h rule: bump.induct) auto

lemma tally_skip_filter:
  "fold (\<lambda>d. if in_bounds mn mx d then bump d 1 else id) ds (filter (\<lambda>e. in_bounds mn mx (fst e)) h)
     = filter (\<lambda>e. in_bounds mn mx (fst e)) (fold (\<lambda>d. bump d (inc_of mn mx d)) ds h)"
proof (induction ds arbitrary: h)
  case Nil
  show ?case by simp
next
  case (Cons d ds)
  show ?case
  proof (cases "in_bounds mn mx d")
    case True
    then have "inc_of mn mx d = 1" by (simp add: inc_of_def in_bounds_def)
    with True Cons[of "bump d 1 h"] show ?thesis
      by (simp add: filter_bump_in[where P="in_bounds mn mx"])
  next
    case False
    with Cons[of "bump d (inc_of mn mx d) h"] show ?thesis
      by (simp add: filter_bump_out[where P="in_bounds mn mx"])
  qed
qed

lemma sorted_key_le_last:
  assumes "sorted (map f ys)" "y \<in> set ys"
  shows "f y \<le> f (last ys)"
proof -
  from assms(2) have ne: "ys \<noteq> []" by auto
  then have "ys = butlast ys @ [last ys]" by simp
  then have "sorted (map f (butlast ys @ [last ys]))" using assms(1) by simp
  then have "\<forall>x \<in> set (butlast ys). f x \<le> f (last ys)"
    by (simp add: sorted_append)
  moreover have "y \<in> set (butlast ys) \<or> y = last ys"
    using assms(2) ne by (metis Un_iff append_butlast_last_id empty_iff empty_set insert_iff list.set(2) set_append)
  ultimately show ?thesis by auto
qed

lemma last_filter_last: "xs \<noteq> [] \<Longrightarrow> P (last xs) \<Longrightarrow> last (filter P xs) = last xs"
proof (induction xs rule: rev_induct)
  case Nil
  then show ?case by simp
next
  case (snoc x xs)
  then show ?case by simp
qed

lemma last_stable_sort:
  assumes "sorted (map f ys)" "ys \<noteq> []"
    and "\<And>k. filter (\<lambda>y. f y = k) ys = filter (\<lambda>y. f y = k) xs"
  shows "last ys = last (filter (\<lambda>x. f x = f (last ys)) xs)"
proof -
  have "last (filter (\<lambda>y. f y = f (last ys)) ys) = last ys"
    using assms(2) by (intro last_filter_last) auto
  then show ?thesis using assms(3)[of "f (last ys)"] by simp
qed

lemma sort_key_Nil_iff: "sort_key f xs = [] \<longleftrightarrow> xs = []"
  by (metis length_sort length_0_conv)

lemma last_sort_key_in: "xs \<noteq> [] \<Longrightarrow> last (sort_key f xs) \<in> set xs"
  by (metis last_in_set set_sort sort_key_Nil_iff)

lemma last_sort_key_eq:
  "xs \<noteq> [] \<Longrightarrow> last (sort_key f xs) = last (filter (\<lambda>x. f x = f (last (sort_key f xs))) xs)"
  by (rule last_stable_sort) (simp_all add: sort_key_stable sort_key_Nil_iff)

lemma last_sort_key_max:
  "x \<in> set xs \<Longrightarrow> f x \<le> f (last (sort_key f xs))"
  by (rule sorted_key_le_last) simp_all

lemma last_sort_key_filter:
  assumes z: "z \<in> set xs" "P z" and low: "\<forall>x \<in> set xs. \<not> P x \<longrightarrow> f x < f z"
  shows "last (sort_key f (filter P xs)) = last (sort_key f xs)"
proof -
  let ?a = "last (sort_key f xs)" and ?b = "last (sort_key f (filter P xs))"
  from z have ne: "xs \<noteq> []" "filter P xs \<noteq> []" by (auto simp: filter_empty_conv)
  have a_in: "?a \<in> set xs" using ne(1) by (rule last_sort_key_in)
  have b_in: "?b \<in> set (filter P xs)" using ne(2) by (rule last_sort_key_in)
  have za: "f z \<le> f ?a" using z(1) by (rule last_sort_key_max)
  then have Pa: "P ?a" using low a_in by force
  then have "f ?a \<le> f ?b" using a_in by (intro last_sort_key_max) simp
  moreover have "f ?b \<le> f ?a" using b_in by (intro last_sort_key_max) simp
  ultimately have eq: "f ?b = f ?a" by simp
  have "filter (\<lambda>x. f x = f ?a) (filter P xs) = filter (\<lambda>x. f x = f ?a) xs"
    unfolding filter_filter using low za by (intro filter_cong) force+
  then have "?b = last (filter (\<lambda>x. f x = f ?a) xs)"
    using last_sort_key_eq[OF ne(2), of f] eq by simp
  then show ?thesis using last_sort_key_eq[OF ne(1), of f] by simp
qed

lemma finite_shared_keys: "finite (shared_keys orig sample)"
  by (simp add: shared_keys_def)

lemma set_deltas:
  "set (deltas ks orig sample) =
     {x_i - x_j | key x_i x_j. key \<in> set ks \<and> x_i \<in> set (dict_get sample key) \<and> x_j \<in> set (dict_get orig key)}"
  by (auto simp: deltas_def)

lemma t_diffs_keys: "set (map fst (t_diffs ks orig sample mn mx)) = set (deltas ks orig sample)"
  by (simp only: t_diffs_deltas tally_keys) simp

lemma t_diffs_distinct: "distinct (map fst (t_diffs ks orig sample mn mx))"
  by (simp only: t_diffs_deltas) (rule tally_distinct, simp)

lemma t_diffs_votes_ok: "votes_ok mn mx (t_diffs ks orig sample mn mx)"
  by (simp only: t_diffs_deltas) (rule tally_votes_ok, simp add: votes_ok_def)

lemma t_diffs_skip_filter:
  "t_diffs_skip ks orig sample mn mx =
     filter (\<lambda>e. in_bounds mn mx (fst e)) (t_diffs ks orig sample mn mx)"
  using tally_skip_filter[of mn mx "deltas ks orig sample" "[]"]
  by (simp add: t_diffs_skip_deltas t_diffs_deltas)

lemma dict_get_nonempty:
  "key \<in> set (map fst d) \<Longrightarrow> \<forall>(k, l) \<in> set d. l \<noteq> [] \<Longrightarrow> dict_get d key \<noteq> []"
  by (auto simp: dict_get_def split: option.splits dest: map_of_SomeD simp: map_of_eq_None_iff)

section \<open>Properties of the delay finder\<close>



lemma iterates_ascending: "iterates ascending"
  by (simp add: iterates_def ascending_def)


lemma find_delay_Inr_iff:
  "find_delay iter orig sample mn mx = Inr d \<longleftrightarrow>
     shared_keys orig sample \<noteq> {} \<and> histogram_of iter orig sample mn mx \<noteq> [] \<and>
     d = fst (last (sort_key snd (histogram_of iter orig sample mn mx)))"
  by (auto simp: find_delay_def histogram_of_def Let_def sort_key_Nil_iff)

lemma find_delay_skip_cases:
  "find_delay_skip iter orig sample mn mx =
     (if shared_keys orig sample = {} then Inl NoCorrelation
      else if filter (\<lambda>e. in_bounds mn mx (fst e)) (histogram_of iter orig sample mn mx) = []
      then Inl IndexError
      else Inr (fst (last (sort_key snd
              (filter (\<lambda>e. in_bounds mn mx (fst e)) (histogram_of iter orig sample mn mx))))))"
  by (simp add: find_delay_skip_def histogram_of_def Let_def sort_key_Nil_iff t_diffs_skip_filter)

lemma find_delay_cases:
  "find_delay iter orig sample mn mx =
     (if shared_keys orig sample = {} then Inl NoCorrelation
      else if histogram_of iter orig sample mn mx = [] then Inl IndexError
      else Inr (fst (last (sort_key snd (histogram_of iter orig sample mn mx)))))"
  by (simp add: find_delay_def histogram_of_def Let_def sort_key_Nil_iff)

lemma stable_sorted_unique:
  assumes "stable_sorted_by_count ys h"
  shows "ys = sort_key snd h"
proof -
  from assms have m: "mset ys = mset h" and s: "sorted (map snd ys)"
    and f: "\<forall>e \<in> set h. filter (\<lambda>x. snd e = snd x) ys = filter (\<lambda>x. snd e = snd x) h"
    by (simp_all add: stable_sorted_by_count_def)
  from m have "set ys = set h" by (rule mset_eq_setD)
  with f have "\<And>k. k \<in> set ys \<Longrightarrow> filter (\<lambda>x. snd k = snd x) ys = filter (\<lambda>x. snd k = snd x) h"
    by simp
  from properties_for_sort_key[OF m this s] show ?thesis by simp
qed

text \<open>
  Claim C3. When \<open>_find_delay\<close> returns a delta, no delta of the histogram has more votes
  than it, and among the deltas with that maximal count it is the one entered last; it is
  the first component of the last entry of every stable ascending sort of the histogram
  entries by count.
\<close>

theorem find_delay_max_votes:
  assumes "find_delay iter orig sample mn mx = Inr d"
  shows "distinct (map fst (histogram_of iter orig sample mn mx)) \<and>
         (\<exists>c. (d, c) \<in> set (histogram_of iter orig sample mn mx) \<and>
              (\<forall>(d', c') \<in> set (histogram_of iter orig sample mn mx). c' \<le> c) \<and>
              (d, c) = last (filter (\<lambda>e. snd e = c) (histogram_of iter orig sample mn mx))) \<and>
         (\<forall>ys. stable_sorted_by_count ys (histogram_of iter orig sample mn mx)
              \<longrightarrow> ys \<noteq> [] \<and> d = fst (last ys))"
proof -
  let ?H = "histogram_of iter orig sample mn mx"
  let ?e = "last (sort_key snd ?H)"
  from assms have ne: "?H \<noteq> []" and d: "d = fst ?e"
    by (simp_all add: find_delay_Inr_iff)
  have 1: "distinct (map fst ?H)" by (simp add: histogram_of_def t_diffs_distinct)
  have in_H: "?e \<in> set ?H" using ne by (rule last_sort_key_in)
  have mx: "\<forall>(d', c') \<in> set ?H. c' \<le> snd ?e"
    using last_sort_key_max[of _ ?H snd] by auto
  have lst: "?e = last (filter (\<lambda>e. snd e = snd ?e) ?H)"
    using ne by (rule last_sort_key_eq)
  have 2: "\<exists>c. (d, c) \<in> set ?H \<and> (\<forall>(d', c') \<in> set ?H. c' \<le> c) \<and>
              (d, c) = last (filter (\<lambda>e. snd e = c) ?H)"
    using in_H mx lst d by (intro exI[of _ "snd ?e"]) simp
  have 3: "\<forall>ys. stable_sorted_by_count ys ?H \<longrightarrow> ys \<noteq> [] \<and> d = fst (last ys)"
  proof (intro allI impI)
    fix ys assume "stable_sorted_by_count ys ?H"
    then have "ys = sort_key snd ?H" by (rule stable_sorted_unique)
    with d ne show "ys \<noteq> [] \<and> d = fst (last ys)" by (simp add: sort_key_Nil_iff)
  qed
  from 1 2 3 show ?thesis by blast
qed

theorem find_delay_max_votes_witness:
  "find_delay ascending [(0, [0, 1]), (3, [1])] [(0, [2, 3]), (3, [4, 6])] None None = Inr 3 \<and>
   (\<exists>c. (3, c) \<in> set (histogram_of ascending [(0, [0, 1]), (3, [1])] [(0, [2, 3]), (3, [4, 6])] None None) \<and>
        (\<forall>(d', c') \<in> set (histogram_of ascending [(0, [0, 1]), (3, [1])] [(0, [2, 3]), (3, [4, 6])] None None).
            c' \<le> c))"
proof -
  have h: "find_delay ascending [(0, [0, 1]), (3, [1])] [(0, [2, 3]), (3, [4, 6])] None None = Inr 3"
    by code_simp
  from find_delay_max_votes[OF h] h show ?thesis by blast
qed

lemma find_delay_selects_difference:
  assumes it: "iterates iter"
    and sh: "shared_keys orig sample \<noteq> {}"
    and no: "\<forall>(k, l) \<in> set orig. l \<noteq> []"
    and ns: "\<forall>(k, l) \<in> set sample. l \<noteq> []"
  shows "\<exists>d. find_delay iter orig sample mn mx = Inr d \<and>
           (\<exists>key \<in> shared_keys orig sample.
              \<exists>x_i \<in> set (dict_get sample key). \<exists>x_j \<in> set (dict_get orig key). d = x_i - x_j) \<and>
           ((\<forall>key \<in> shared_keys orig sample.
               \<forall>x_i \<in> set (dict_get sample key). \<forall>x_j \<in> set (dict_get orig key).
                 \<not> in_bounds mn mx (x_i - x_j))
            \<longrightarrow> (d, 0) \<in> set (histogram_of iter orig sample mn mx) \<and> \<not> in_bounds mn mx d)"
proof -
  let ?K = "shared_keys orig sample"
  let ?H = "histogram_of iter orig sample mn mx"
  let ?e = "last (sort_key snd ?H)"
  from it have K: "set (iter ?K) = ?K"
    by (simp add: iterates_def finite_shared_keys)
  from sh obtain key where key: "key \<in> ?K" by auto
  then have "key \<in> set (map fst sample)" "key \<in> set (map fst orig)"
    by (simp_all add: shared_keys_def)
  then have "dict_get sample key \<noteq> []" "dict_get orig key \<noteq> []"
    using no ns by (simp_all add: dict_get_nonempty)
  then obtain x_i x_j where "x_i \<in> set (dict_get sample key)" "x_j \<in> set (dict_get orig key)"
    by (meson last_in_set)
  with key K have "x_i - x_j \<in> set (deltas (iter ?K) orig sample)"
    by (auto simp: set_deltas)
  then have "set (map fst ?H) \<noteq> {}"
    unfolding histogram_of_def t_diffs_keys by auto
  then have ne: "?H \<noteq> []" by auto
  then have fd: "find_delay iter orig sample mn mx = Inr (fst ?e)"
    using sh by (simp add: find_delay_cases)
  have in_H: "?e \<in> set ?H" using ne by (rule last_sort_key_in)
  then have "fst ?e \<in> set (deltas (iter ?K) orig sample)"
    using t_diffs_keys[of "iter ?K" orig sample mn mx] by (auto simp: histogram_of_def)
  then have diff: "\<exists>key \<in> ?K. \<exists>x_i \<in> set (dict_get sample key). \<exists>x_j \<in> set (dict_get orig key).
      fst ?e = x_i - x_j"
    using K by (auto simp: set_deltas)
  have "votes_ok mn mx ?H" by (simp add: histogram_of_def t_diffs_votes_ok)
  then have zero: "\<not> in_bounds mn mx (fst ?e) \<Longrightarrow> snd ?e = 0"
    using in_H by (auto simp: votes_ok_def split: if_splits)
  have "(\<forall>key \<in> ?K. \<forall>x_i \<in> set (dict_get sample key). \<forall>x_j \<in> set (dict_get orig key).
                 \<not> in_bounds mn mx (x_i - x_j))
            \<longrightarrow> (fst ?e, 0) \<in> set ?H \<and> \<not> in_bounds mn mx (fst ?e)"
  proof
    assume a: "\<forall>key \<in> ?K. \<forall>x_i \<in> set (dict_get sample key). \<forall>x_j \<in> set (dict_get orig key).
                 \<not> in_bounds mn mx (x_i - x_j)"
    with diff have nb: "\<not> in_bounds mn mx (fst ?e)" by auto
    with zero in_H show "(fst ?e, 0) \<in> set ?H \<and> \<not> in_bounds mn mx (fst ?e)"
      by (metis prod.collapse)
  qed
  with fd diff show ?thesis by blast
qed

text \<open>
  Claim C8, as amended. \<open>find_delay_skip\<close> is the variant that skips a delta outside the
  bounds. When at least one delta lies inside the bounds, both variants return the same
  result. When the signatures share a key and no delta lies inside the bounds, the variant
  that skips has an empty histogram and fails at the last-element indexing, whereas
  \<open>_find_delay\<close> returns a delta with zero votes when the loops have visited one.
\<close>

theorem find_delay_skip_agrees:
  "((\<exists>key \<in> set (iter (shared_keys orig sample)).
        \<exists>x_i \<in> set (dict_get sample key). \<exists>x_j \<in> set (dict_get orig key).
          in_bounds mn mx (x_i - x_j))
      \<longrightarrow> find_delay_skip iter orig sample mn mx = find_delay iter orig sample mn mx) \<and>
   (shared_keys orig sample \<noteq> {} \<and>
    \<not> (\<exists>key \<in> set (iter (shared_keys orig sample)).
        \<exists>x_i \<in> set (dict_get sample key). \<exists>x_j \<in> set (dict_get orig key).
          in_bounds mn mx (x_i - x_j))
      \<longrightarrow> find_delay_skip iter orig sample mn mx = Inl IndexError \<and>
          (deltas (iter (shared_keys orig sample)) orig sample \<noteq> [] \<longrightarrow>
             (\<exists>d. find_delay iter orig sample mn mx = Inr d \<and>
                  (d, 0) \<in> set (histogram_of iter orig sample mn mx))))"
proof -
  let ?K = "shared_keys orig sample"
  let ?H = "histogram_of iter orig sample mn mx"
  let ?P = "\<lambda>e::int \<times> nat. in_bounds mn mx (fst e)"
  let ?some = "\<exists>key \<in> set (iter ?K). \<exists>x_i \<in> set (dict_get sample key).
      \<exists>x_j \<in> set (dict_get orig key). in_bounds mn mx (x_i - x_j)"
  have keys: "fst ` set ?H = set (deltas (iter ?K) orig sample)"
    using t_diffs_keys[of "iter ?K" orig sample mn mx] by (simp add: histogram_of_def)
  have ok: "votes_ok mn mx ?H" by (simp add: histogram_of_def t_diffs_votes_ok)
  have A: "find_delay_skip iter orig sample mn mx = find_delay iter orig sample mn mx" if ?some
  proof -
    from that obtain d where "d \<in> set (deltas (iter ?K) orig sample)" "in_bounds mn mx d"
      by (auto simp: set_deltas)
    with keys obtain z where z: "z \<in> set ?H" "?P z" by force
    then have z1: "1 \<le> snd z" using ok by (auto simp: votes_ok_def)
    have low: "\<forall>x \<in> set ?H. \<not> ?P x \<longrightarrow> snd x < snd z"
      using ok z1 by (auto simp: votes_ok_def)
    have "last (sort_key snd (filter ?P ?H)) = last (sort_key snd ?H)"
      using z low by (rule last_sort_key_filter)
    moreover have "filter ?P ?H \<noteq> []" "?H \<noteq> []"
      using z by (auto simp: filter_empty_conv)
    ultimately show ?thesis
      by (simp add: find_delay_skip_cases find_delay_cases)
  qed
  have B: "find_delay_skip iter orig sample mn mx = Inl IndexError"
    if "?K \<noteq> {}" "\<not> ?some"
  proof -
    have "\<forall>d \<in> set (deltas (iter ?K) orig sample). \<not> in_bounds mn mx d"
      using that(2) by (auto simp: set_deltas)
    with keys have "filter ?P ?H = []" by (auto simp: filter_empty_conv)
    with that(1) show ?thesis by (simp add: find_delay_skip_cases)
  qed
  have C: "\<exists>d. find_delay iter orig sample mn mx = Inr d \<and> (d, 0) \<in> set ?H"
    if "?K \<noteq> {}" "\<not> ?some" "deltas (iter ?K) orig sample \<noteq> []"
  proof -
    let ?e = "last (sort_key snd ?H)"
    from that(3) keys have ne: "?H \<noteq> []" by auto
    then have in_H: "?e \<in> set ?H" by (rule last_sort_key_in)
    with keys have "fst ?e \<in> set (deltas (iter ?K) orig sample)" by force
    with that(2) have "\<not> in_bounds mn mx (fst ?e)" by (auto simp: set_deltas)
    with ok in_H have "snd ?e = 0" by (auto simp: votes_ok_def split: if_splits)
    with in_H have "(fst ?e, 0) \<in> set ?H" by (metis prod.collapse)
    moreover from ne that(1) have "find_delay iter orig sample mn mx = Inr (fst ?e)"
      by (simp add: find_delay_cases)
    ultimately show ?thesis by blast
  qed
  from A B C show ?thesis by blast
qed


theorem find_delay_skip_agrees_witness:
  "(\<exists>key \<in> set (ascending (shared_keys [(0, [0, 1]), (3, [1])] [(0, [2, 3]), (3, [4, 6])])).
      \<exists>x_i \<in> set (dict_get [(0, [2, 3]), (3, [4, 6])] key).
      \<exists>x_j \<in> set (dict_get [(0, [0, 1]), (3, [1])] key). in_bounds (Some 2) None (x_i - x_j)) \<and>
   find_delay_skip ascending [(0, [0, 1]), (3, [1])] [(0, [2, 3]), (3, [4, 6])] (Some 2) None =
     find_delay ascending [(0, [0, 1]), (3, [1])] [(0, [2, 3]), (3, [4, 6])] (Some 2) None \<and>
   shared_keys [(0, [0])] [(0, [0])] \<noteq> {} \<and>
   \<not> (\<exists>key \<in> set (ascending (shared_keys [(0, [0])] [(0, [0])])).
      \<exists>x_i \<in> set (dict_get [(0, [0])] key).
      \<exists>x_j \<in> set (dict_get [(0, [0])] key). in_bounds (Some 5) None (x_i - x_j)) \<and>
   find_delay_skip ascending [(0, [0])] [(0, [0])] (Some 5) None = Inl IndexError"
proof -
  have a: "\<exists>key \<in> set (ascending (shared_keys [(0, [0, 1]), (3, [1])] [(0, [2, 3]), (3, [4, 6])])).
      \<exists>x_i \<in> set (dict_get [(0, [2, 3]), (3, [4, 6])] key).
      \<exists>x_j \<in> set (dict_get [(0, [0, 1]), (3, [1])] key). in_bounds (Some 2) None (x_i - x_j)"
    by code_simp
  have sh: "shared_keys [(0, [0])] [(0, [0])] \<noteq> {}" by code_simp
  have b: "\<not> (\<exists>key \<in> set (ascending (shared_keys [(0, [0])] [(0, [0])])).
      \<exists>x_i \<in> set (dict_get [(0, [0])] key).
      \<exists>x_j \<in> set (dict_get [(0, [0])] key). in_bounds (Some 5) None (x_i - x_j))"
    by code_simp
  from a sh b
    find_delay_skip_agrees[of ascending "[(0, [0, 1]), (3, [1])]" "[(0, [2, 3]), (3, [4, 6])]" "Some 2" None]
    find_delay_skip_agrees[of ascending "[(0, [0])]" "[(0, [0])]" "Some 5" None]
  show ?thesis by blast
qed

text \<open>
  Claim C8 as stated fails: with the one shared key \<open>0\<close>, the one delta \<open>0\<close> and the lower
  bound \<open>5\<close>, \<open>_find_delay\<close> returns the delta \<open>0\<close> and the variant that skips raises.
\<close>

theorem find_delay_skip_counterexample:
  "shared_keys [(0, [0])] [(0, [0])] \<noteq> {} \<and>
   find_delay ascending [(0, [0])] [(0, [0])] (Some 5) None = Inr 0 \<and>
   find_delay_skip ascending [(0, [0])] [(0, [0])] (Some 5) None = Inl IndexError"
  by code_simp

section \<open>Properties of the resolver\<close>


lemma fold_err_append:
  "fold_err f (xs @ ys) s = (case fold_err f xs s of Inl e \<Rightarrow> Inl e | Inr s' \<Rightarrow> fold_err f ys s')"
  by (induction xs arbitrary: s) (auto split: sum.splits)

lemma fold_err_fails:
  "x \<in> set xs \<Longrightarrow> (\<And>s. \<exists>e. f x s = Inl e) \<Longrightarrow> \<exists>e. fold_err f xs s = Inl e"
proof (induction xs arbitrary: s)
  case Nil
  then show ?case by simp
next
  case (Cons y ys)
  show ?case
  proof (cases "f y s")
    case (Inl e)
    then show ?thesis by simp
  next
    case (Inr s')
    show ?thesis
    proof (cases "x = y")
      case True
      with Cons.prems(2)[of s] Inr show ?thesis by auto
    next
      case False
      with Cons.prems(1) have "x \<in> set ys" by simp
      from Cons.IH[OF this Cons.prems(2), of s'] Inr show ?thesis by simp
    qed
  qed
qed

lemma fold_err_invariant:
  assumes "fold_err f xs s = Inr s'" "P s"
    and "\<And>x a b. x \<in> set xs \<Longrightarrow> P a \<Longrightarrow> f x a = Inr b \<Longrightarrow> P b"
  shows "P s'"
  using assms
proof (induction xs arbitrary: s)
  case Nil
  then show ?case by simp
next
  case (Cons y ys)
  from Cons.prems(1) obtain t where t: "f y s = Inr t" "fold_err f ys t = Inr s'"
    by (auto split: sum.splits)
  have "P t" using Cons.prems(2,3) t(1) by auto
  from Cons.IH[OF t(2) this] Cons.prems(3) show ?case by auto
qed

lemma base_step_eq:
  "base_step iter each sps r1 i r2 =
     (case base_value iter each sps r1 (i + 1) of
        Inl e \<Rightarrow> Inl e
      | Inr v \<Rightarrow> Inr (AList.update (0, i + 1) v r2))"
  by (simp add: base_step_def base_value_def split: option.splits sum.splits)

lemma base_loop_keys:
  "fold_err (base_step iter each sps r1) [0..<m] [((0, 0), 0)] = Inr r2 \<Longrightarrow>
     map fst r2 = map (Pair 0) [0..<Suc m]"
proof (induction m arbitrary: r2)
  case 0
  then show ?case by auto
next
  case (Suc m)
  from Suc.prems obtain r where r: "fold_err (base_step iter each sps r1) [0..<m] [((0, 0), 0)] = Inr r"
    and st: "base_step iter each sps r1 m r = Inr r2"
    by (auto simp: fold_err_append split: sum.splits)
  from Suc.IH[OF r] have k: "map fst r = map (Pair 0) [0..<Suc m]" .
  from st obtain v where "r2 = AList.update (0, Suc m) v r"
    by (auto simp: base_step_eq split: sum.splits)
  then have "map fst r2 = map fst r @ [(0, Suc m)]"
    using k by (auto simp: update_keys)
  with k show ?case by simp
qed

lemma base_loop_values:
  "fold_err (base_step iter each sps r1) [0..<m] [((0, 0), 0)] = Inr r2 \<Longrightarrow>
     map_of r2 (0, 0) = Some 0 \<and>
     (\<forall>j. 0 < j \<and> j \<le> m \<longrightarrow> (\<exists>v. base_value iter each sps r1 j = Inr v \<and> map_of r2 (0, j) = Some v))"
proof (induction m arbitrary: r2)
  case 0
  then show ?case by auto
next
  case (Suc m)
  from Suc.prems obtain r where r: "fold_err (base_step iter each sps r1) [0..<m] [((0, 0), 0)] = Inr r"
    and st: "base_step iter each sps r1 m r = Inr r2"
    by (auto simp: fold_err_append split: sum.splits)
  from st obtain v where v: "base_value iter each sps r1 (Suc m) = Inr v"
    and r2: "r2 = AList.update (0, Suc m) v r"
    by (auto simp: base_step_eq split: sum.splits)
  from Suc.IH[OF r] v r2 show ?case
    by (auto simp: update_conv' le_Suc_eq)
qed

lemma sorted_Pair0: "sorted (map (Pair (0::nat)) [0..<(n::nat)])"
  by (simp add: sorted_map less_eq_prod_def sorted_wrt_iff_nth_less)

lemma chain_step_keys:
  assumes "chain_step r1 e i r2 = Inr r2'" "(0, i + 1) \<in> set (map fst r2)"
  shows "map fst r2' = map fst r2"
proof -
  have "map fst (AList.update (0, i + 1) v r2) = map fst r2" for v
    using assms(2) by (simp add: update_keys)
  with assms(1) show ?thesis
    by (cases e) (auto simp: chain_step_def split: if_splits sum.splits)
qed

lemma chain_keys:
  assumes "chain n r1 r2 = Inr r2'" "map fst r2 = map (Pair 0) [0..<Suc (n - 1)]"
  shows "map fst r2' = map fst r2"
proof -
  let ?P = "\<lambda>r. map fst r = map fst r2"
  have inner: "?P b" if "fold_err (chain_step r1 e) [0..<n - 1] a = Inr b" "?P a" for e a b
    using that(1,2)
  proof (rule fold_err_invariant)
    fix x a' b'
    assume x: "x \<in> set [0..<n - 1]" and a': "?P a'" and s: "chain_step r1 e x a' = Inr b'"
    from x a' assms(2) have "(0, x + 1) \<in> set (map fst a')" by auto
    from chain_step_keys[OF s this] a' show "?P b'" by simp
  qed
  from assms(1) have "fold_err (\<lambda>edge. fold_err (chain_step r1 edge) [0..<n - 1])
       (sort (map fst r1)) r2 = Inr r2'" by (simp add: chain_def)
  then show ?thesis
    by (rule fold_err_invariant[where P = ?P]) (auto intro: inner)
qed

lemma map_err_Inr:
  "map_err f xs = Inr ys \<Longrightarrow> length ys = length xs \<and> (\<forall>i < length xs. f (xs ! i) = Inr (ys ! i))"
proof (induction xs arbitrary: ys)
  case Nil
  then show ?case by simp
next
  case (Cons x xs)
  from Cons.prems obtain y ys' where y: "f x = Inr y" and ys': "map_err f xs = Inr ys'"
    and ys: "ys = y # ys'"
    by (auto split: sum.splits)
  from Cons.IH[OF ys'] y ys show ?case
    by (auto simp: nth_Cons split: nat.splits)
qed

lemma resolve_keys:
  assumes "resolve iter abspath each sample_rate fft_bin_size files known_delay_map = Inr r2"
    and "1 \<le> length files"
  shows "map fst r2 = map (Pair 0) [0..<length files]"
proof -
  from assms(1) obtain sps r1 r where
    b: "base_relative iter each sps (length files) r1 = Inr r"
    and c: "chain (length files) r1 r = Inr r2"
    by (auto simp: resolve_def split: sum.splits)
  from b have k: "map fst r = map (Pair 0) [0..<Suc (length files - 1)]"
    unfolding base_relative_def by (rule base_loop_keys)
  from assms(2) have "Suc (length files - 1) = length files" by simp
  with chain_keys[OF c k] k show ?thesis by (simp only:)
qed

lemma build_result_Inr:
  assumes "build_result r2 = Inr result" "map fst r2 = map (Pair 0) [0..<n]"
  shows "length result = n \<and> (\<forall>i < n. map_of r2 (0, i) = Some (result ! i))"
proof -
  have "sort (map fst r2) = map (Pair 0) [0..<n]"
    using assms(2) sorted_Pair0[of n] by (simp add: sorted_sort_id)
  with assms(1) have "map_err (lookup r2) (map (Pair 0) [0..<n]) = Inr result"
    by (simp add: build_result_def)
  from map_err_Inr[OF this] show ?thesis
    by (auto simp: lookup_def split: option.splits)
qed

lemma pad_trim_Inr:
  assumes "pad_trim result = Inr (pad, trim)"
  shows "result \<noteq> [] \<and> pad = map (\<lambda>r. r - Min (set result)) result \<and>
         trim = map (\<lambda>p. Max (set pad) - p) pad"
  using assms by (auto simp: pad_trim_def Let_def split: if_splits)

lemma Min_shifted:
  fixes xs :: "rat list"
  assumes "xs \<noteq> []"
  shows "Min (set (map (\<lambda>r. r - Min (set xs)) xs)) = 0"
proof (rule Min_eqI)
  show "finite (set (map (\<lambda>r. r - Min (set xs)) xs))" by simp
  show "0 \<le> y" if "y \<in> set (map (\<lambda>r. r - Min (set xs)) xs)" for y
    using that by auto
  have "Min (set xs) \<in> set xs" using assms by (intro Min_in) simp_all
  then show "0 \<in> set (map (\<lambda>r. r - Min (set xs)) xs)" by force
qed

lemma Min_reflected:
  fixes xs :: "rat list"
  assumes "xs \<noteq> []"
  shows "Min (set (map (\<lambda>p. Max (set xs) - p) xs)) = 0"
proof (rule Min_eqI)
  show "finite (set (map (\<lambda>p. Max (set xs) - p) xs))" by simp
  show "0 \<le> y" if "y \<in> set (map (\<lambda>p. Max (set xs) - p) xs)" for y
    using that by auto
  have "Max (set xs) \<in> set xs" using assms by (intro Max_in) simp_all
  then show "0 \<in> set (map (\<lambda>p. Max (set xs) - p) xs)" by force
qed



text \<open>
  Claim C5. After the loop of lines 210-218, \<open>_result2[(0, 0)]\<close> is 0 and, for every other
  file index \<open>i\<close>: the entry \<open>(0, i)\<close> of \<open>_result1\<close> when there is one; otherwise the negated
  entry \<open>(i, 0)\<close> when there is one; otherwise the result of \<open>_find_delay\<close> on the signatures
  of file 0 and file \<open>i\<close> without bounds, converted to seconds.
\<close>

theorem base_relative_delays:
  assumes "base_relative iter each sps n result1 = Inr result2"
  shows "map_of result2 (0, 0) = Some 0 \<and>
    (\<forall>i. 0 < i \<and> i < n \<longrightarrow>
       (case map_of result1 (0, i) of
          Some v \<Rightarrow> map_of result2 (0, i) = Some v
        | None \<Rightarrow>
            (case map_of result1 (i, 0) of
               Some v \<Rightarrow> map_of result2 (0, i) = Some (- v)
             | None \<Rightarrow>
                 (\<exists>delay v. find_delay iter (each 0) (each i) None None = Inr delay \<and>
                    to_seconds sps delay = Inr v \<and> map_of result2 (0, i) = Some v))))"
proof -
  from assms have f: "fold_err (base_step iter each sps result1) [0..<n - 1] [((0, 0), 0)] = Inr result2"
    by (simp add: base_relative_def)
  from base_loop_values[OF f] have z: "map_of result2 (0, 0) = Some 0"
    and v: "\<And>j. 0 < j \<Longrightarrow> j \<le> n - 1 \<Longrightarrow>
          \<exists>v. base_value iter each sps result1 j = Inr v \<and> map_of result2 (0, j) = Some v"
    by blast+
  have "case map_of result1 (0, i) of
          Some v \<Rightarrow> map_of result2 (0, i) = Some v
        | None \<Rightarrow>
            (case map_of result1 (i, 0) of
               Some v \<Rightarrow> map_of result2 (0, i) = Some (- v)
             | None \<Rightarrow>
                 (\<exists>delay v. find_delay iter (each 0) (each i) None None = Inr delay \<and>
                    to_seconds sps delay = Inr v \<and> map_of result2 (0, i) = Some v))"
    if "0 < i" "i < n" for i
  proof -
    from that have "i \<le> n - 1" by simp
    from v[OF that(1) this] show ?thesis
      by (auto simp: base_value_def split: option.splits sum.splits)
  qed
  with z show ?thesis by blast
qed

theorem base_relative_delays_witness:
  "base_relative ascending example_each 1 3 [((2, 0), 3)] =
     Inr [((0, 0), 0), ((0, 1), - 1), ((0, 2), - 3)] \<and>
   map_of [((0::nat, 0::nat), 0::rat), ((0, 1), - 1), ((0, 2), - 3)] (0, 0) = Some 0"
proof -
  have h: "base_relative ascending example_each 1 3 [((2, 0), 3)] =
     Inr [((0, 0), 0), ((0, 1), - 1), ((0, 2), - 3)]"
    by code_simp
  from base_relative_delays[OF h] h show ?thesis by blast
qed

lemma known_step_fails:
  assumes "index_of files (abspath kdm_key) = Some it" "kdm_base k = Some b"
    "index_of files (abspath b) = Some ib"
    "find_delay iter (each ib) (each it) (map_option (\<lambda>m. m * sps) (kdm_min k))
       (map_option (\<lambda>m. m * sps) (kdm_max k)) = Inl e"
  shows "known_step iter abspath each sps files (kdm_key, k) r1 = Inl e"
  using assms by (simp add: known_step_def)

lemma base_step_fails:
  assumes "map_of r1 (0, i + 1) = None" "map_of r1 (i + 1, 0) = None"
    "find_delay iter (each 0) (each (i + 1)) None None = Inl e"
  shows "base_step iter each sps r1 i r2 = Inl e"
  using assms by (simp add: base_step_def)

lemma align_Inl_known:
  assumes "py_truediv (of_int sample_rate) (of_int fft_bin_size) = Inr sps"
    and "\<exists>e. known_delays iter abspath each sps files known_delay_map = Inl e"
  shows "\<exists>e. align iter abspath each sample_rate fft_bin_size files known_delay_map = Inl e"
  using assms by (auto simp: align_def resolved_delays_def resolve_def)

lemma align_Inl_base:
  assumes "py_truediv (of_int sample_rate) (of_int fft_bin_size) = Inr sps"
    and "known_delays iter abspath each sps files known_delay_map = Inr r1"
    and "\<exists>e. base_relative iter each sps (length files) r1 = Inl e"
  shows "\<exists>e. align iter abspath each sample_rate fft_bin_size files known_delay_map = Inl e"
  using assms by (auto simp: align_def resolved_delays_def resolve_def)

text \<open>
  Claim C2. \<open>_find_delay\<close> raises the "no correlation" error exactly when the two signatures
  share no key. When a call of \<open>_find_delay\<close> made for a constraint whose two files are in
  the file list, or made for a file that has no edge to file 0 in \<open>_result1\<close>, raises it,
  \<open>_align\<close> ends with an exception: it returns no pad and trim vectors.
\<close>

theorem no_correlation_aborts:
  "(find_delay iter orig sample mn mx = Inl NoCorrelation \<longleftrightarrow> shared_keys orig sample = {}) \<and>
   (py_truediv (of_int sample_rate) (of_int fft_bin_size) = Inr sps \<and>
    (kdm_key, k) \<in> set known_delay_map \<and>
    index_of files (abspath kdm_key) = Some it \<and> kdm_base k = Some b \<and>
    index_of files (abspath b) = Some ib \<and>
    find_delay iter (each ib) (each it) (map_option (\<lambda>m. m * sps) (kdm_min k))
       (map_option (\<lambda>m. m * sps) (kdm_max k)) = Inl NoCorrelation
    \<longrightarrow> (\<exists>e. align iter abspath each sample_rate fft_bin_size files known_delay_map = Inl e)) \<and>
   (py_truediv (of_int sample_rate) (of_int fft_bin_size) = Inr sps \<and>
    known_delays iter abspath each sps files known_delay_map = Inr known \<and>
    0 < i \<and> i < length files \<and> map_of known (0, i) = None \<and> map_of known (i, 0) = None \<and>
    find_delay iter (each 0) (each i) None None = Inl NoCorrelation
    \<longrightarrow> (\<exists>e. align iter abspath each sample_rate fft_bin_size files known_delay_map = Inl e))"
proof (intro conjI impI)
  show "find_delay iter orig sample mn mx = Inl NoCorrelation \<longleftrightarrow> shared_keys orig sample = {}"
    by (simp add: find_delay_cases)
next
  assume a: "py_truediv (of_int sample_rate) (of_int fft_bin_size) = Inr sps \<and>
    (kdm_key, k) \<in> set known_delay_map \<and>
    index_of files (abspath kdm_key) = Some it \<and> kdm_base k = Some b \<and>
    index_of files (abspath b) = Some ib \<and>
    find_delay iter (each ib) (each it) (map_option (\<lambda>m. m * sps) (kdm_min k))
       (map_option (\<lambda>m. m * sps) (kdm_max k)) = Inl NoCorrelation"
  then have "\<And>r1. \<exists>e. known_step iter abspath each sps files (kdm_key, k) r1 = Inl e"
    using known_step_fails by blast
  with a have "\<exists>e. known_delays iter abspath each sps files known_delay_map = Inl e"
    unfolding known_delays_def by (intro fold_err_fails[where x = "(kdm_key, k)"]) simp_all
  with a show "\<exists>e. align iter abspath each sample_rate fft_bin_size files known_delay_map = Inl e"
    using align_Inl_known by blast
next
  assume a: "py_truediv (of_int sample_rate) (of_int fft_bin_size) = Inr sps \<and>
    known_delays iter abspath each sps files known_delay_map = Inr known \<and>
    0 < i \<and> i < length files \<and> map_of known (0, i) = None \<and> map_of known (i, 0) = None \<and>
    find_delay iter (each 0) (each i) None None = Inl NoCorrelation"
  then obtain j where j: "i = j + 1" "j \<in> set [0..<length files - 1]"
    by (cases i) auto
  with a have "\<And>r2. \<exists>e. base_step iter each sps known j r2 = Inl e"
    using base_step_fails by blast
  with j(2) have "\<exists>e. base_relative iter each sps (length files) known = Inl e"
    unfolding base_relative_def by (intro fold_err_fails[where x = j]) simp_all
  with a show "\<exists>e. align iter abspath each sample_rate fft_bin_size files known_delay_map = Inl e"
    using align_Inl_base by blast
qed

theorem no_correlation_aborts_witness:
  "find_delay ascending (example_each 0) (example_each 3) None None = Inl NoCorrelation \<and>
   shared_keys (example_each 0) (example_each 3) = {} \<and>
   find_delay ascending (example_each 1) (example_each 3) None None = Inl NoCorrelation \<and>
   (\<exists>e. align ascending (\<lambda>p. p) example_each 1 1 [''a'', ''b'', ''c'', ''d'']
          [(''d'', \<lparr>kdm_base = Some ''b'', kdm_min = None, kdm_max = None\<rparr>)] = Inl e) \<and>
   (\<exists>e. align ascending (\<lambda>p. p) example_each 1 1 [''a'', ''b'', ''c'', ''d''] [] = Inl e)"
proof -
  let ?k = "\<lparr>kdm_base = Some ''b'', kdm_min = None, kdm_max = None\<rparr>"
  let ?files = "[''a'', ''b'', ''c'', ''d'']"
  have sps: "py_truediv (of_int 1) (of_int 1) = Inr 1" by (simp add: py_truediv_def)
  have e: "shared_keys (example_each 0) (example_each 3) = {}" by code_simp
  have f03: "find_delay ascending (example_each 0) (example_each 3) None None = Inl NoCorrelation"
    using no_correlation_aborts[of ascending "example_each 0" "example_each 3" None None] e
    by blast
  have f13: "find_delay ascending (example_each 1) (example_each 3) None None = Inl NoCorrelation"
    by code_simp
  have i1: "index_of ?files ''d'' = Some 3" "index_of ?files ''b'' = Some 1" by simp_all
  have "\<exists>e. align ascending (\<lambda>p. p) example_each 1 1 ?files [(''d'', ?k)] = Inl e"
    using no_correlation_aborts[where sample_rate = 1 and fft_bin_size = 1 and sps = 1
        and kdm_key = "''d''" and k = ?k and known_delay_map = "[(''d'', ?k)]" and files = ?files
        and abspath = "\<lambda>p. p" and it = 3 and b = "''b''" and ib = 1 and iter = ascending
        and each = example_each] sps i1 f13
    by simp
  moreover have kd: "known_delays ascending (\<lambda>p. p) example_each 1 ?files [] = Inr []"
    by (simp add: known_delays_def)
  have "\<exists>e. align ascending (\<lambda>p. p) example_each 1 1 ?files [] = Inl e"
    using no_correlation_aborts[where sample_rate = 1 and fft_bin_size = 1 and sps = 1
        and known_delay_map = "[]" and files = ?files and abspath = "\<lambda>p. p"
        and iter = ascending and each = example_each and known = "[]" and i = 3] sps kd f03
    by simp
  ultimately show ?thesis using e f03 f13 by blast
qed

text \<open>
  Claim C1. When \<open>_align\<close> returns for two or more files, the delay vector, \<open>pad\<close> and
  \<open>trim\<close> have one entry per file, entry \<open>i\<close> of the delay vector being
  \<open>_result2[(0, i)]\<close>; \<open>pad[i] = delay[i] - min(delay)\<close>, \<open>trim[i] = max(pad) - pad[i]\<close>,
  both are non-negative, and the minimum of \<open>pad\<close> and of \<open>trim\<close> is 0.
\<close>

theorem align_pad_trim:
  assumes al: "align iter abspath each sample_rate fft_bin_size files known_delay_map = Inr (pad, trim)"
    and n: "2 \<le> length files"
  shows "\<exists>delay result2.
      resolve iter abspath each sample_rate fft_bin_size files known_delay_map = Inr result2 \<and>
      resolved_delays iter abspath each sample_rate fft_bin_size files known_delay_map = Inr delay \<and>
      length delay = length files \<and> length pad = length files \<and> length trim = length files \<and>
      (\<forall>i < length files.
         map_of result2 (0, i) = Some (delay ! i) \<and>
         pad ! i = delay ! i - Min (set delay) \<and>
         trim ! i = Max (set pad) - pad ! i \<and>
         0 \<le> pad ! i \<and> 0 \<le> trim ! i) \<and>
      Min (set pad) = 0 \<and> Min (set trim) = 0"
proof -
  from al obtain delay where rd:
    "resolved_delays iter abspath each sample_rate fft_bin_size files known_delay_map = Inr delay"
    and pt: "pad_trim delay = Inr (pad, trim)"
    by (auto simp: align_def split: sum.splits)
  from rd obtain r2 where r2:
    "resolve iter abspath each sample_rate fft_bin_size files known_delay_map = Inr r2"
    and br: "build_result r2 = Inr delay"
    by (auto simp: resolved_delays_def split: sum.splits)
  from n have "1 \<le> length files" by simp
  from build_result_Inr[OF br resolve_keys[OF r2 this]]
  have len: "length delay = length files"
    and key: "\<forall>i < length files. map_of r2 (0, i) = Some (delay ! i)" by simp_all
  from pad_trim_Inr[OF pt] have ne: "delay \<noteq> []"
    and pad: "pad = map (\<lambda>r. r - Min (set delay)) delay"
    and trim: "trim = map (\<lambda>p. Max (set pad) - p) pad" by simp_all
  from ne pad have pne: "pad \<noteq> []" by simp
  have mp: "Min (set pad) = 0" unfolding pad using ne by (rule Min_shifted)
  have mt: "Min (set trim) = 0" unfolding trim using pne by (rule Min_reflected)
  have lp: "length pad = length files" "length trim = length files"
    using len pad trim by simp_all
  have pw: "pad ! i = delay ! i - Min (set delay) \<and> trim ! i = Max (set pad) - pad ! i \<and>
            0 \<le> pad ! i \<and> 0 \<le> trim ! i" if "i < length files" for i
  proof -
    from that lp have ip: "pad ! i \<in> set pad" and it: "trim ! i \<in> set trim" by simp_all
    have "0 \<le> pad ! i" using Min_le[OF _ ip] mp by simp
    moreover have "0 \<le> trim ! i" using Min_le[OF _ it] mt by simp
    moreover have "pad ! i = delay ! i - Min (set delay)" using that len by (simp add: pad)
    moreover have "trim ! i = Max (set pad) - pad ! i"
      using that lp(1) by (simp add: trim)
    ultimately show ?thesis by simp
  qed
  from r2 rd len lp key pw mp mt show ?thesis by blast
qed

theorem align_pad_trim_witness:
  "align ascending (\<lambda>p. p) example_each 1 1 [''a'', ''b'', ''c''] [] = Inr ([5, 4, 0], [0, 1, 5]) \<and>
   (2::nat) \<le> length [''a'', ''b'', ''c''] \<and>
   Min (set [5, 4, 0::rat]) = 0 \<and> Min (set [0, 1, 5::rat]) = 0 \<and>
   (\<exists>delay. resolved_delays ascending (\<lambda>p. p) example_each 1 1 [''a'', ''b'', ''c''] [] = Inr delay \<and>
        length delay = 3)"
proof -
  have h: "align ascending (\<lambda>p. p) example_each 1 1 [''a'', ''b'', ''c''] [] = Inr ([5, 4, 0], [0, 1, 5])"
    by code_simp
  have n: "(2::nat) \<le> length [''a'', ''b'', ''c'']" by simp
  from align_pad_trim[OF h n] h n show ?thesis by auto
qed

lemma upt_2: "[0..<2] = [0, Suc 0]"
  by (simp add: numeral_2_eq_2)

text \<open>The loop of lines 226-231 on three files and one edge between files 1 and 2: with
  the edge \<open>(1, 2)\<close> the delay of file 1 is replaced and that of file 2 is kept; with the
  edge \<open>(2, 1)\<close> the delay of the target, file 1, is derived from that of the base.\<close>

lemma chain_three_files:
  "chain 3 [((1, 2), p)] [((0, 0), 0), ((0, 1), d1), ((0, 2), d2)] =
     Inr [((0, 0), 0), ((0, 1), d2 + p), ((0, 2), d2)]"
  by (simp add: chain_def chain_step_def lookup_def upt_2)

lemma chain_three_files_rev:
  "chain 3 [((2, 1), p)] [((0, 0), 0), ((0, 1), d1), ((0, 2), d2)] =
     Inr [((0, 0), 0), ((0, 1), d2 - p), ((0, 2), d2)]"
  by (simp add: chain_def chain_step_def lookup_def upt_2)

text \<open>
  Claim C4 at three files \<open>a\<close>, \<open>b\<close>, \<open>c\<close> with the one constraint that \<open>c\<close> has base
  \<open>b\<close>, at one window per second. \<open>_find_delay\<close> gives 1 for file 1 against file 0, 5 for
  file 2 against file 0 and 4 for file 2 against file 1, so the delay of file 1 computed
  on its own is \<open>-1\<close> and the pairwise delay \<open>(1, 2)\<close> is \<open>-4\<close>. The loop of lines
  226-231 first overwrites the delay of file 1 with \<open>-5 + -4 = -9\<close> and then sets the delay
  of file 2 to \<open>-9 - -4 = -5\<close>, the value computed on its own for file 2; the claim has
  \<open>-1 - -4 = 3\<close> there.
\<close>

theorem chain_overrides_base_example:
  "find_delay ascending (example_each 0) (example_each 1) None None = Inr 1 \<and>
   find_delay ascending (example_each 0) (example_each 2) None None = Inr 5 \<and>
   find_delay ascending (example_each 1) (example_each 2) None None = Inr 4 \<and>
   known_delays ascending (\<lambda>p. p) example_each 1 [''a'', ''b'', ''c'']
     [(''c'', \<lparr>kdm_base = Some ''b'', kdm_min = None, kdm_max = None\<rparr>)] = Inr [((1, 2), - 4)] \<and>
   base_relative ascending example_each 1 3 [((1, 2), - 4)] =
     Inr [((0, 0), 0), ((0, 1), - 1), ((0, 2), - 5)] \<and>
   resolved_delays ascending (\<lambda>p. p) example_each 1 1 [''a'', ''b'', ''c'']
     [(''c'', \<lparr>kdm_base = Some ''b'', kdm_min = None, kdm_max = None\<rparr>)] = Inr [0, - 9, - 5]"
  by code_simp

section \<open>Properties of the signature extractor\<close>































section \<open>Signatures of the extractor in the delay finder\<close>


lemma dict_append_nonempty:
  "\<forall>(k, l) \<in> set d. l \<noteq> [] \<Longrightarrow> \<forall>(k, l) \<in> set (dict_append y x d). l \<noteq> []"
  by (induction y x d rule: dict_append.induct) auto

lemma fold_dict_append_nonempty:
  "\<forall>(k, l) \<in> set d. l \<noteq> [] \<Longrightarrow>
     \<forall>(k, l) \<in> set (fold (\<lambda>(intensity, x, y). dict_append y x) ts d). l \<noteq> []"
proof (induction ts arbitrary: d)
  case Nil
  then show ?case by simp
next
  case (Cons t ts)
  obtain v x y where t: "t = (v, x, y)" by (cases t)
  from Cons.prems have "\<forall>(k, l) \<in> set (dict_append y x d). l \<noteq> []"
    by (rule dict_append_nonempty)
  from Cons.IH[OF this] t show ?case by simp
qed

lemma flatten_nonempty: "\<forall>(y, xs) \<in> set (flatten boxes). xs \<noteq> []"
proof -
  have "\<forall>(k, l) \<in> set (fold (\<lambda>k. fold (\<lambda>(intensity, x, y). dict_append y x) (dict_get boxes k)) ks d). l \<noteq> []"
    if "\<forall>(k, l) \<in> set d. l \<noteq> []" for ks and d :: signature
    using that
  proof (induction ks arbitrary: d)
    case Nil
    then show ?case by simp
  next
    case (Cons k ks)
    from Cons.prems have
      "\<forall>(k, l) \<in> set (fold (\<lambda>(intensity, x, y). dict_append y x) (dict_get boxes k) d). l \<noteq> []"
      by (rule fold_dict_append_nonempty)
    from Cons.IH[OF this] show ?case by simp
  qed
  from this[of "[]" "map fst boxes"] show ?thesis by (simp add: flatten_def)
qed

lemma summary_nonempty:
  "mk_freq_trans_summary spectrum data fft_bin_size overlap box_height box_width maxes_per_box = Inr sig
     \<Longrightarrow> \<forall>(y, xs) \<in> set sig. xs \<noteq> []"
  using flatten_nonempty by (auto simp: mk_freq_trans_summary_def split: sum.splits)

text \<open>
  Claim C10. Every time list of a signature that \<open>_mk_freq_trans_summary\<close> returns is
  non-empty. For two signatures that share a key and whose time lists are all non-empty,
  \<open>_find_delay\<close> returns a delta: the histogram is not empty, and the delta is a difference
  \<open>x_i - x_j\<close> of a time of the sample and a time of the original under a shared key. When
  the bounds exclude every such difference, the delta returned has zero votes and lies
  outside the bounds.
\<close>

theorem find_delay_total:
  assumes it: "iterates iter"
    and sh: "shared_keys orig sample \<noteq> {}"
    and no: "\<forall>(k, l) \<in> set orig. l \<noteq> []"
    and ns: "\<forall>(k, l) \<in> set sample. l \<noteq> []"
  shows "(\<exists>d. find_delay iter orig sample mn mx = Inr d \<and>
           (\<exists>key \<in> shared_keys orig sample.
              \<exists>x_i \<in> set (dict_get sample key). \<exists>x_j \<in> set (dict_get orig key). d = x_i - x_j) \<and>
           ((\<forall>key \<in> shared_keys orig sample.
               \<forall>x_i \<in> set (dict_get sample key). \<forall>x_j \<in> set (dict_get orig key).
                 \<not> in_bounds mn mx (x_i - x_j))
            \<longrightarrow> (d, 0) \<in> set (histogram_of iter orig sample mn mx) \<and> \<not> in_bounds mn mx d)) \<and>
         (\<forall>sig. mk_freq_trans_summary spectrum data fft_bin_size overlap box_height box_width
                  maxes_per_box = Inr sig \<longrightarrow> (\<forall>(y, xs) \<in> set sig. xs \<noteq> []))"
  using find_delay_selects_difference[OF it sh no ns, of mn mx] summary_nonempty
  by blast

theorem find_delay_total_witness:
  "iterates ascending \<and> shared_keys [(0, [0])] [(0, [0])] \<noteq> {} \<and>
   list_all (\<lambda>(k, l). l \<noteq> []) [(0::int, [0::int])] \<and>
   (\<exists>d. find_delay ascending [(0, [0])] [(0, [0])] (Some 5) None = Inr d \<and>
        (d, 0) \<in> set (histogram_of ascending [(0, [0])] [(0, [0])] (Some 5) None) \<and>
        \<not> in_bounds (Some 5) None d)"
proof -
  have sh: "shared_keys [(0, [0])] [(0, [0])] \<noteq> {}" by code_simp
  have ne: "\<forall>(k, l) \<in> set [(0::int, [0::int])]. l \<noteq> []" by simp
  have out: "\<forall>key \<in> shared_keys [(0, [0])] [(0, [0])].
      \<forall>x_i \<in> set (dict_get [(0, [0])] key). \<forall>x_j \<in> set (dict_get [(0, [0])] key).
        \<not> in_bounds (Some 5) None (x_i - x_j)"
    by code_simp
  from find_delay_total[OF iterates_ascending sh ne ne, where mn = "Some 5" and mx = None] out
  have "\<exists>d. find_delay ascending [(0, [0])] [(0, [0])] (Some 5) None = Inr d \<and>
        (d, 0) \<in> set (histogram_of ascending [(0, [0])] [(0, [0])] (Some 5) None) \<and>
        \<not> in_bounds (Some 5) None d"
    by blast
  with iterates_ascending sh show ?thesis by simp
qed

section \<open>Properties of the cache key\<close>

text \<open>
  Claim C9, as amended. The cache key is \<open>make_cache_key\<close> of the extraction parameters, the
  duration cap, the file path and the time of the last access of the file
  (\<open>os.path.getatime\<close>): two states of the file system that agree on the access time of the
  file give the same key, whatever the modification time.
\<close>

theorem cache_key_from_atime:
  "(st_atime (stat_before video_file) = st_atime (stat_after video_file) \<longrightarrow>
      cache_key make_cache_key dont_cache stat_before sample_rate video_file fft_bin_size overlap
        box_height box_width samples_per_box max_misalignment afilter =
      cache_key make_cache_key dont_cache stat_after sample_rate video_file fft_bin_size overlap
        box_height box_width samples_per_box max_misalignment afilter) \<and>
   (for_cache_of stat_before sample_rate video_file fft_bin_size overlap box_height box_width
        samples_per_box max_misalignment afilter = Inr fc \<longrightarrow>
      fc_atime fc = st_atime (stat_before video_file) \<and> fc_video_file fc = video_file \<and>
      fc_sample_rate fc = sample_rate \<and> fc_afilter fc = afilter \<and>
      fc_fft_bin_size fc = fft_bin_size \<and> fc_overlap fc = overlap \<and>
      fc_box_height fc = box_height \<and> fc_box_width fc = box_width \<and>
      fc_samples_per_box fc = samples_per_box \<and>
      maxmisal max_misalignment fft_bin_size overlap sample_rate = Inr (fc_duration fc) \<and>
      cache_key make_cache_key False stat_before sample_rate video_file fft_bin_size overlap
        box_height box_width samples_per_box max_misalignment afilter =
        Inr (Some (make_cache_key fc)))"
  by (auto simp: cache_key_def for_cache_of_def split: sum.splits)

theorem cache_key_from_atime_witness:
  "st_atime ((\<lambda>p. \<lparr>st_atime = 7, st_mtime = 1\<rparr>) ''a.mp4'') =
     st_atime ((\<lambda>p. \<lparr>st_atime = 7, st_mtime = 2\<rparr>) ''a.mp4'') \<and>
   cache_key (\<lambda>fc. fc) False (\<lambda>p. \<lparr>st_atime = 7, st_mtime = 1\<rparr>) 48000 ''a.mp4'' 1024 0 512 43 7 0 [] =
   cache_key (\<lambda>fc. fc) False (\<lambda>p. \<lparr>st_atime = 7, st_mtime = 2\<rparr>) 48000 ''a.mp4'' 1024 0 512 43 7 0 []"
proof -
  have a: "st_atime ((\<lambda>p. \<lparr>st_atime = 7, st_mtime = 1\<rparr>) ''a.mp4'') =
     st_atime ((\<lambda>p. \<lparr>st_atime = 7, st_mtime = 2\<rparr>) ''a.mp4'')" by simp
  from cache_key_from_atime[where stat_before = "\<lambda>p. \<lparr>st_atime = 7, st_mtime = 1\<rparr>"
      and stat_after = "\<lambda>p. \<lparr>st_atime = 7, st_mtime = 2\<rparr>" and video_file = "''a.mp4''"
      and make_cache_key = "\<lambda>fc. fc" and dont_cache = False and sample_rate = 48000
      and fft_bin_size = 1024 and overlap = 0 and box_height = 512 and box_width = 43
      and samples_per_box = 7 and max_misalignment = 0 and afilter = "[]"] a
  show ?thesis by blast
qed

text \<open>
  Claim C9 as stated fails: a file modified between two runs (modification time 1, then 2)
  with the access time unchanged keeps its key, and the key argument of an unmodified
  file changes with its access time.
\<close>

theorem cache_key_mtime_counterexample:
  "st_mtime \<lparr>st_atime = 7, st_mtime = 1\<rparr> \<noteq> st_mtime \<lparr>st_atime = 7, st_mtime = 2\<rparr> \<and>
   cache_key (\<lambda>fc. fc) False (\<lambda>p. \<lparr>st_atime = 7, st_mtime = 1\<rparr>) 48000 ''a.mp4'' 1024 0 512 43 7 0 [] =
   cache_key (\<lambda>fc. fc) False (\<lambda>p. \<lparr>st_atime = 7, st_mtime = 2\<rparr>) 48000 ''a.mp4'' 1024 0 512 43 7 0 [] \<and>
   st_mtime \<lparr>st_atime = 7, st_mtime = 1\<rparr> = st_mtime \<lparr>st_atime = 8, st_mtime = 1\<rparr> \<and>
   cache_key (\<lambda>fc. fc) False (\<lambda>p. \<lparr>st_atime = 7, st_mtime = 1\<rparr>) 48000 ''a.mp4'' 1024 0 512 43 7 0 [] \<noteq>
   cache_key (\<lambda>fc. fc) False (\<lambda>p. \<lparr>st_atime = 8, st_mtime = 1\<rparr>) 48000 ''a.mp4'' 1024 0 512 43 7 0 []"
  by (simp add: cache_key_def for_cache_of_def maxmisal_def)

end
